theory Spec2Isabelle
  imports Complex_Main "HOL-Library.Word" "HOL-Library.Log_Nat"
begin

unbundle bit_operations_syntax

section \<open>Go values used by the packet decoder\<close>

type_synonym byte = "8 word"
type_synonym uint16 = "16 word"

text \<open>
  A Go slice of bytes, as \<open>ExtractCombustionPacket\<close> receives it: \<open>array\<close> is the part
  of the backing array that the slice can reach (from its first element up to its
  capacity), \<open>len\<close> is its length. The elements of the slice are the first \<open>len\<close>
  bytes of \<open>array\<close>; the capacity is the length of \<open>array\<close>. The backing array is
  shared with the caller, so a write through the slice is a write to the caller's buffer.
\<close>

record byte_slice =
  array :: "byte list"
  len :: nat

definition cap :: "byte_slice \<Rightarrow> nat" where
  "cap s = length (array s)"

definition well_formed :: "byte_slice \<Rightarrow> bool" where
  "well_formed s = (len s \<le> cap s)"

text \<open>
  The run-time panics of Go that the function can raise (\<open>runtime.boundsError\<close>):
  \<open>index out of range [i] with length n\<close> for \<open>s[i]\<close>, and
  \<open>slice bounds out of range [:h] with capacity c\<close> for \<open>s[l:h]\<close>. The function
  has no error result and no length check of its own, so a panic is the only way in
  which it does not return a packet.
\<close>

datatype boundsError =
    IndexOutOfRange nat nat
  | SliceBoundsOutOfRange nat nat

text \<open>
  A statement runs on the slice and either panics or yields a value; in both cases the
  backing array is left as the statement has written it.
\<close>

type_synonym 'a exec = "byte_slice \<Rightarrow> (boundsError + 'a) \<times> byte_slice"

definition return :: "'a \<Rightarrow> 'a exec" where
  "return x s = (Inr x, s)"

definition bind :: "'a exec \<Rightarrow> ('a \<Rightarrow> 'b exec) \<Rightarrow> 'b exec" where
  "bind f g s = (case f s of (Inl e, s') \<Rightarrow> (Inl e, s') | (Inr x, s') \<Rightarrow> g x s')"

text \<open>\<open>rawPacket[i]\<close>: the index is checked against the length.\<close>

definition index :: "nat \<Rightarrow> byte exec" where
  "index i s = (if i < len s then (Inr (array s ! i), s)
                else (Inl (IndexOutOfRange i (len s)), s))"

text \<open>
  \<open>rawPacket[lo:hi]\<close> with constant \<open>lo \<le> hi\<close>: the upper bound of a slice
  expression on a slice is checked against the capacity. The value is the pair of bounds,
  a view of the same backing array.
\<close>

definition slice_expr :: "nat \<Rightarrow> nat \<Rightarrow> (nat \<times> nat) exec" where
  "slice_expr lo hi s = (if hi \<le> cap s then (Inr (lo, hi), s)
                         else (Inl (SliceBoundsOutOfRange hi (cap s)), s))"

text \<open>\<open>slices.Reverse\<close> of the standard library: reverses the elements of a slice in place.\<close>

definition reverse_range :: "nat \<Rightarrow> nat \<Rightarrow> 'a list \<Rightarrow> 'a list" where
  "reverse_range lo hi xs = take lo xs @ rev (take (hi - lo) (drop lo xs)) @ drop hi xs"

definition Reverse :: "nat \<times> nat \<Rightarrow> unit exec" where
  "Reverse v s = (case v of (lo, hi) \<Rightarrow>
     (Inr (), s\<lparr>array := reverse_range lo hi (array s)\<rparr>))"

text \<open>
  \<open>hex.EncodeToString\<close> of the standard library: two characters of
  \<open>hextable\<close> for each byte, the high nibble first.
\<close>

definition hextable :: string where
  "hextable = ''0123456789abcdef''"

definition encode_bytes :: "byte list \<Rightarrow> string" where
  "encode_bytes bs =
     concat (map (\<lambda>v. [hextable ! unat (drop_bit 4 v), hextable ! unat (v AND 0x0f)]) bs)"

definition EncodeToString :: "nat \<times> nat \<Rightarrow> string exec" where
  "EncodeToString v s = (case v of (lo, hi) \<Rightarrow>
     (Inr (encode_bytes (take (hi - lo) (drop lo (array s)))), s))"

section \<open>Single-precision arithmetic\<close>

text \<open>
  A finite \<open>float32\<close> is the rational number it denotes. \<open>f32_round\<close> is the rounding
  of IEEE 754 binary32 (24 bits of significand, least exponent \<open>-126\<close>, round to
  nearest, ties to even) for results below the overflow threshold, which is all that
  \<open>fromRawTemp\<close> can produce from a \<open>uint16\<close>: a number \<open>x\<close> with
  \<open>2 powi L \<le> \<bar>x\<bar> < 2 powi (L + 1)\<close> is rounded to a multiple of
  \<open>2 powi (L - 23)\<close>.
\<close>

type_synonym float32 = rat

text \<open>The integer part of the binary logarithm of a positive rational.\<close>

definition ilog2 :: "rat \<Rightarrow> int" where
  "ilog2 x = (if 1 \<le> x then int (floorlog 2 (nat \<lfloor>x\<rfloor>)) - 1
              else - int (floorlog 2 (nat (\<lceil>1 / x\<rceil> - 1))))"

definition round_half_even :: "rat \<Rightarrow> int" where
  "round_half_even q = (let n = \<lfloor>q\<rfloor>; r = q - of_int n in
     if r < 1 / 2 then n else if 1 / 2 < r then n + 1 else if even n then n else n + 1)"

definition f32_round :: "rat \<Rightarrow> float32" where
  "f32_round x = (if x = 0 then 0 else
     let e = max (ilog2 \<bar>x\<bar>) (- 126) - 23
     in sgn x * of_int (round_half_even (\<bar>x\<bar> / 2 powi e)) * 2 powi e)"

text \<open>The conversion \<open>float32(raw)\<close> and the operators \<open>*\<close> and \<open>-\<close> on \<open>float32\<close>.\<close>

definition f32_of_uint16 :: "uint16 \<Rightarrow> float32" where
  "f32_of_uint16 raw = f32_round (of_nat (unat raw))"

definition f32_mul :: "float32 \<Rightarrow> float32 \<Rightarrow> float32" where
  "f32_mul a b = f32_round (a * b)"

definition f32_sub :: "float32 \<Rightarrow> float32 \<Rightarrow> float32" where
  "f32_sub a b = f32_round (a - b)"

section \<open>The packet\<close>

type_synonym CombustionProductType = byte

definition CombustionUnknownPT :: CombustionProductType where
  "CombustionUnknownPT = 0"

definition CombustionPredictiveProbePT :: CombustionProductType where
  "CombustionPredictiveProbePT = 1"

type_synonym CombustionMode = byte

definition CombustionModeNormal :: CombustionMode where
  "CombustionModeNormal = 0"

definition CombustionModeInstantRead :: CombustionMode where
  "CombustionModeInstantRead = 1"

definition CombustionModeReserved :: CombustionMode where
  "CombustionModeReserved = 2"

definition CombustionModeError :: CombustionMode where
  "CombustionModeError = 3"

type_synonym CombustionColorID = byte

definition CombustionColorYellow :: CombustionColorID where
  "CombustionColorYellow = 0"

definition CombustionColorGrey :: CombustionColorID where
  "CombustionColorGrey = 1"

record CombustionPacket =
  ProductType :: CombustionProductType
  SerialNumber :: string
  Temps :: "float32 list"
  Mode :: CombustionMode
  ColorID :: CombustionColorID
  ProbeID :: byte
  BatteryOK :: bool
  VirtualCoreIndex :: byte
  VirtualSurfaceIndex :: byte
  VirtualAmbientIndex :: byte
  Overheating :: "bool list"

text \<open>
  The composite literal at the head of the function: the fields that it does not name
  have their zero values (\<open>Temps\<close> is the nil slice, of length 0; \<open>Overheating\<close>
  is an array of 8 \<open>false\<close>).
\<close>

definition packet_literal :: CombustionPacket where
  "packet_literal = \<lparr>ProductType = CombustionUnknownPT, SerialNumber = '''', Temps = [],
     Mode = 0, ColorID = 0, ProbeID = 0, BatteryOK = False, VirtualCoreIndex = 0,
     VirtualSurfaceIndex = 0, VirtualAmbientIndex = 0, Overheating = replicate 8 False\<rparr>"

section \<open>The decoder\<close>

text \<open>
  \<open>(float32(raw) * 0.05) - 20.0\<close>; the constants are converted to \<open>float32\<close>. The
  product is not converted explicitly, so the Go specification lets an implementation fuse
  the multiplication and the subtraction into one operation that rounds once (the compiler
  does so where the target has the instruction). \<open>fused\<close> tells which of the two
  this implementation does; written as the source is, each operation rounds on its own.
\<close>

definition fromRawTemp :: "bool \<Rightarrow> uint16 \<Rightarrow> float32" where
  "fromRawTemp fused raw =
     (if fused then f32_round (f32_of_uint16 raw * f32_round 0.05 - f32_round 20.0)
      else f32_sub (f32_mul (f32_of_uint16 raw) (f32_round 0.05)) (f32_round 20.0))"

text \<open>The branch for \<open>CombustionModeInstantRead\<close>.\<close>

definition temps_InstantRead :: "bool \<Rightarrow> float32 list exec" where
  "temps_InstantRead fused =
     bind (index 16) (\<lambda>b16. bind (index 17) (\<lambda>b17.
       return ((replicate 1 0)[0 := fromRawTemp fused
         (push_bit 8 (ucast (b16 AND 0x1f)) OR ucast (b17 AND 0xff))])))"

text \<open>
  The branch for \<open>CombustionModeNormal\<close>: one definition for each assignment, in the
  order of the source. \<open>>>\<close> binds tighter than \<open>|\<close> in Go, so the last operand of a
  three-byte value is shifted before it is joined.
\<close>

definition temp7 :: "bool \<Rightarrow> float32 list \<Rightarrow> float32 list exec" where
  "temp7 fused ts = bind (index 5) (\<lambda>b5. bind (index 6) (\<lambda>b6.
     return (ts[7 := fromRawTemp fused
       (push_bit 5 (ucast (b5 AND 0xff)) OR drop_bit 3 (ucast b6))])))"

definition temp6 :: "bool \<Rightarrow> float32 list \<Rightarrow> float32 list exec" where
  "temp6 fused ts = bind (index 6) (\<lambda>b6. bind (index 7) (\<lambda>b7. bind (index 8) (\<lambda>b8.
     return (ts[6 := fromRawTemp fused
       (push_bit 10 (ucast (b6 AND 0x07)) OR push_bit 2 (ucast (b7 AND 0xff))
          OR drop_bit 6 (ucast (b8 AND 0xc0)))]))))"

definition temp5 :: "bool \<Rightarrow> float32 list \<Rightarrow> float32 list exec" where
  "temp5 fused ts = bind (index 8) (\<lambda>b8. bind (index 9) (\<lambda>b9.
     return (ts[5 := fromRawTemp fused
       (push_bit 7 (ucast (b8 AND 0x3f)) OR drop_bit 1 (ucast (b9 AND 0xfe)))])))"

definition temp4 :: "bool \<Rightarrow> float32 list \<Rightarrow> float32 list exec" where
  "temp4 fused ts = bind (index 9) (\<lambda>b9. bind (index 10) (\<lambda>b10. bind (index 11) (\<lambda>b11.
     return (ts[4 := fromRawTemp fused
       (push_bit 12 (ucast (b9 AND 0x01)) OR push_bit 4 (ucast (b10 AND 0xff))
          OR drop_bit 4 (ucast (b11 AND 0xf0)))]))))"

definition temp3 :: "bool \<Rightarrow> float32 list \<Rightarrow> float32 list exec" where
  "temp3 fused ts = bind (index 11) (\<lambda>b11. bind (index 12) (\<lambda>b12. bind (index 13) (\<lambda>b13.
     return (ts[3 := fromRawTemp fused
       (push_bit 9 (ucast (b11 AND 0x0f)) OR push_bit 1 (ucast (b12 AND 0xff))
          OR drop_bit 7 (ucast (b13 AND 0x80)))]))))"

definition temp2 :: "bool \<Rightarrow> float32 list \<Rightarrow> float32 list exec" where
  "temp2 fused ts = bind (index 13) (\<lambda>b13. bind (index 14) (\<lambda>b14.
     return (ts[2 := fromRawTemp fused
       (push_bit 6 (ucast (b13 AND 0x7f)) OR drop_bit 2 (ucast (b14 AND 0xfc)))])))"

definition temp1 :: "bool \<Rightarrow> float32 list \<Rightarrow> float32 list exec" where
  "temp1 fused ts = bind (index 14) (\<lambda>b14. bind (index 15) (\<lambda>b15. bind (index 16) (\<lambda>b16.
     return (ts[1 := fromRawTemp fused
       (push_bit 11 (ucast (b14 AND 0x03)) OR push_bit 3 (ucast (b15 AND 0xff))
          OR drop_bit 5 (ucast (b16 AND 0xe0)))]))))"

definition temp0 :: "bool \<Rightarrow> float32 list \<Rightarrow> float32 list exec" where
  "temp0 fused ts = bind (index 16) (\<lambda>b16. bind (index 17) (\<lambda>b17.
     return (ts[0 := fromRawTemp fused
       (push_bit 8 (ucast (b16 AND 0x1f)) OR ucast (b17 AND 0xff))])))"

definition temps_Normal :: "bool \<Rightarrow> float32 list exec" where
  "temps_Normal fused =
     bind (temp7 fused (replicate 8 0)) (\<lambda>ts. bind (temp6 fused ts) (\<lambda>ts.
     bind (temp5 fused ts) (\<lambda>ts. bind (temp4 fused ts) (\<lambda>ts.
     bind (temp3 fused ts) (\<lambda>ts. bind (temp2 fused ts) (\<lambda>ts.
     bind (temp1 fused ts) (\<lambda>ts. temp0 fused ts)))))))"

text \<open>
  The loop over the overheating flags, \<open>for i := range 8\<close>: the state is the array of
  flags and \<open>ohMask\<close>.
\<close>

primrec overheating_loop :: "nat list \<Rightarrow> bool list \<times> byte \<Rightarrow> (bool list \<times> byte) exec" where
  "overheating_loop [] st = return st"
| "overheating_loop (i # rest) st =
     bind (index 21) (\<lambda>b21.
       overheating_loop rest
         ((fst st)[7 - i := (b21 AND snd st = snd st)], drop_bit 1 (snd st)))"

definition ExtractCombustionPacket :: "bool \<Rightarrow> CombustionPacket exec" where
  "ExtractCombustionPacket fused =
     bind (index 0) (\<lambda>b0.
     let packet = packet_literal\<lparr>ProductType := b0\<rparr> in
     bind (slice_expr 1 5) (\<lambda>v. bind (Reverse v) (\<lambda>_.
     bind (slice_expr 1 5) (\<lambda>v. bind (EncodeToString v) (\<lambda>str.
     let packet = packet\<lparr>SerialNumber := str\<rparr> in
     bind (index 18) (\<lambda>b18.
     let packet = packet\<lparr>Mode := b18 AND 0x03\<rparr> in
     bind (index 18) (\<lambda>b18.
     let packet = packet\<lparr>ColorID := drop_bit 2 b18 AND 0x70\<rparr> in
     bind (index 18) (\<lambda>b18.
     let packet = packet\<lparr>ProbeID := drop_bit 5 b18 AND 0x70\<rparr> in
     bind (slice_expr 5 18) (\<lambda>v. bind (Reverse v) (\<lambda>_.
     bind (if Mode packet = CombustionModeInstantRead then temps_InstantRead fused
           else if Mode packet = CombustionModeNormal then temps_Normal fused
           else return (Temps packet)) (\<lambda>ts.
     let packet = packet\<lparr>Temps := ts\<rparr> in
     bind (index 19) (\<lambda>b19.
     let packet = packet\<lparr>BatteryOK := (b19 AND 0x01 = 0x00)\<rparr> in
     bind (index 19) (\<lambda>b19.
     let packet = packet\<lparr>VirtualCoreIndex := drop_bit 1 b19 AND 0x07\<rparr> in
     bind (index 19) (\<lambda>b19.
     let packet = packet\<lparr>VirtualSurfaceIndex := (drop_bit 4 b19 AND 0x03) + 3\<rparr> in
     bind (index 19) (\<lambda>b19.
     let packet = packet\<lparr>VirtualAmbientIndex := (drop_bit 6 b19 AND 0x03) + 4\<rparr> in
     bind (overheating_loop [0..<8] (Overheating packet, 0x80)) (\<lambda>st.
     return (packet\<lparr>Overheating := fst st\<rparr>)))))))))))))))))"

section \<open>The returned packet in closed form\<close>

text \<open>
  Two auxiliary definitions for the proofs: the eight raw readings and the returned packet,
  both written over the bytes as they are received (before the two reversals in place).
  \<open>Extract_returns\<close> below proves that they are what the decoder computes.
\<close>

definition wire_raw :: "byte list \<Rightarrow> uint16 list" where
  "wire_raw a =
    [push_bit 8 (ucast (a ! 6 AND 0x1f)) OR ucast (a ! 5 AND 0xff),
     push_bit 11 (ucast (a ! 8 AND 0x03)) OR push_bit 3 (ucast (a ! 7 AND 0xff))
       OR drop_bit 5 (ucast (a ! 6 AND 0xe0)),
     push_bit 6 (ucast (a ! 9 AND 0x7f)) OR drop_bit 2 (ucast (a ! 8 AND 0xfc)),
     push_bit 9 (ucast (a ! 11 AND 0x0f)) OR push_bit 1 (ucast (a ! 10 AND 0xff))
       OR drop_bit 7 (ucast (a ! 9 AND 0x80)),
     push_bit 12 (ucast (a ! 13 AND 0x01)) OR push_bit 4 (ucast (a ! 12 AND 0xff))
       OR drop_bit 4 (ucast (a ! 11 AND 0xf0)),
     push_bit 7 (ucast (a ! 14 AND 0x3f)) OR drop_bit 1 (ucast (a ! 13 AND 0xfe)),
     push_bit 10 (ucast (a ! 16 AND 0x07)) OR push_bit 2 (ucast (a ! 15 AND 0xff))
       OR drop_bit 6 (ucast (a ! 14 AND 0xc0)),
     push_bit 5 (ucast (a ! 17 AND 0xff)) OR drop_bit 3 (ucast (a ! 16))]"

definition returned_packet :: "bool \<Rightarrow> byte list \<Rightarrow> CombustionPacket" where
  "returned_packet fused a =
    \<lparr>ProductType = a ! 0,
     SerialNumber = encode_bytes [a ! 4, a ! 3, a ! 2, a ! 1],
     Temps = (if a ! 18 AND 0x03 = CombustionModeInstantRead then [fromRawTemp fused (wire_raw a ! 0)]
              else if a ! 18 AND 0x03 = CombustionModeNormal then map (fromRawTemp fused) (wire_raw a)
              else []),
     Mode = a ! 18 AND 0x03,
     ColorID = drop_bit 2 (a ! 18) AND 0x70,
     ProbeID = drop_bit 5 (a ! 18) AND 0x70,
     BatteryOK = (a ! 19 AND 0x01 = 0),
     VirtualCoreIndex = drop_bit 1 (a ! 19) AND 0x07,
     VirtualSurfaceIndex = (drop_bit 4 (a ! 19) AND 0x03) + 3,
     VirtualAmbientIndex = (drop_bit 6 (a ! 19) AND 0x03) + 4,
     Overheating = map (\<lambda>i. a ! 21 AND push_bit i 1 = push_bit i 1) [0..<8]\<rparr>"

section \<open>Example inputs\<close>

text \<open>
  Advertisement payloads on which the theorems below are instantiated. \<open>normal_packet\<close>
  has product type 1, mode 0 (byte 18 is \<open>0xfc\<close>) and a set battery bit (byte 19 is
  \<open>0x01\<close>); its bytes 5 to 17 pack the raw readings 800, 0, 8191, 420, 1200, 2000, 4000
  and 4096 of thermistors 1 to 8. The others differ from it in the mode, in the product type
  or in the length.
\<close>

definition normal_packet :: byte_slice where
  "normal_packet = \<lparr>array = [0x01, 0x12, 0x34, 0x56, 0x78,
     0x20, 0x03, 0x00, 0xfc, 0x7f, 0xd2, 0x00, 0x4b, 0xa0, 0x0f, 0xe8, 0x03, 0x80,
     0xfc, 0x01, 0x00, 0x81], len = 22\<rparr>"

definition instant_read_packet :: byte_slice where
  "instant_read_packet = normal_packet\<lparr>array := (array normal_packet)[18 := 0xfd]\<rparr>"

definition reserved_packet :: byte_slice where
  "reserved_packet = normal_packet\<lparr>array := (array normal_packet)[18 := 0xfe]\<rparr>"

definition error_packet :: byte_slice where
  "error_packet = normal_packet\<lparr>array := (array normal_packet)[18 := 0xff]\<rparr>"

definition unlisted_type_packet :: byte_slice where
  "unlisted_type_packet = normal_packet\<lparr>array := (array normal_packet)[0 := 0x07]\<rparr>"

definition short_packet :: byte_slice where
  "short_packet = \<lparr>array = [0x01, 0x12, 0x34, 0x56, 0x78, 0x20, 0x03, 0x00, 0xfc, 0x7f],
     len = 10\<rparr>"

section \<open>Running the decoder\<close>

lemma length_reverse_range [simp]: "lo \<le> hi \<Longrightarrow> length (reverse_range lo hi xs) = length xs"
  by (simp add: reverse_range_def min_def)

lemma nth_reverse_range:
  assumes "lo \<le> hi" "hi \<le> length xs" "i < length xs"
  shows "reverse_range lo hi xs ! i = (if lo \<le> i \<and> i < hi then xs ! (lo + hi - 1 - i) else xs ! i)"
proof -
  have l1: "length (take lo xs) = lo" using assms by simp
  have l2: "length (rev (take (hi - lo) (drop lo xs))) = hi - lo" using assms by simp
  consider "i < lo" | "lo \<le> i" "i < hi" | "hi \<le> i" by linarith
  then show ?thesis
  proof cases
    case 1
    then show ?thesis using assms by (simp add: reverse_range_def nth_append)
  next
    case 2
    then have "reverse_range lo hi xs ! i = rev (take (hi - lo) (drop lo xs)) ! (i - lo)"
      using assms l1 l2 by (simp add: reverse_range_def nth_append)
    also have "\<dots> = take (hi - lo) (drop lo xs) ! (hi - lo - Suc (i - lo))"
      using 2 assms by (simp add: rev_nth)
    also have "\<dots> = xs ! (lo + hi - 1 - i)"
      using 2 assms by (simp add: add.commute)
    finally show ?thesis using 2 by simp
  next
    case 3
    then have "\<not> i < lo" "\<not> i - lo < hi - lo" "i - lo - (hi - lo) = i - hi"
      using assms by linarith+
    then have "reverse_range lo hi xs ! i = drop hi xs ! (i - hi)"
      using assms l1 l2 by (simp add: reverse_range_def nth_append)
    then show ?thesis using 3 assms by simp
  qed
qed

lemma upt8: "[0..<8] = [0, 1, 2, 3, 4, 5, 6, 7]"
  by (simp add: upt_rec)

lemma serial_bytes:
  assumes "5 \<le> length a"
  shows "take 4 (drop (Suc 0) (reverse_range (Suc 0) 5 a)) = [a ! 4, a ! 3, a ! 2, a ! Suc 0]"
proof -
  have "length (take 4 (drop (Suc 0) (reverse_range (Suc 0) 5 a))) = 4"
    using assms by simp
  moreover have "take 4 (drop (Suc 0) (reverse_range (Suc 0) 5 a)) ! i
      = [a ! 4, a ! 3, a ! 2, a ! Suc 0] ! i" if "i < 4" for i
  proof -
    from that consider "i = 0" | "i = 1" | "i = 2" | "i = 3" by linarith
    then show ?thesis using assms by cases (simp_all add: nth_reverse_range)
  qed
  ultimately show ?thesis by (simp add: list_eq_iff_nth_eq)
qed

lemma replicate8: "replicate 8 x = [x, x, x, x, x, x, x, x]"
  by (simp add: numeral_eq_Suc)

lemma update8:
  "[x0, x1, x2, x3, x4, x5, x6, x7][7 := y7, 6 := y6, 5 := y5, 4 := y4, 3 := y3, 2 := y2,
      Suc 0 := y1, 0 := y0] = [y0, y1, y2, y3, y4, y5, y6, y7]"
  by (simp add: numeral_eq_Suc)

lemma Extract_returns:
  assumes "well_formed s" "22 \<le> len s"
  shows "ExtractCombustionPacket fused s =
    (Inr (returned_packet fused (array s)),
     s\<lparr>array := reverse_range 5 18 (reverse_range 1 5 (array s))\<rparr>)"
  using assms
  by (simp add: ExtractCombustionPacket_def upt8 bind_def index_def return_def slice_expr_def Reverse_def
     EncodeToString_def Let_def well_formed_def cap_def temps_InstantRead_def temps_Normal_def
     temp0_def temp1_def temp2_def temp3_def temp4_def temp5_def temp6_def temp7_def nth_reverse_range packet_literal_def
     returned_packet_def wire_raw_def serial_bytes replicate8 update8)

lemmas run_simps = ExtractCombustionPacket_def upt8 bind_def index_def return_def
  slice_expr_def Reverse_def EncodeToString_def Let_def well_formed_def cap_def
  temps_InstantRead_def temps_Normal_def temp0_def temp1_def temp2_def temp3_def temp4_def
  temp5_def temp6_def temp7_def packet_literal_def

text \<open>
  On a slice of fewer than 22 bytes the decoder panics, at the first index or slice
  expression that is out of range in the order of the statements.
\<close>

lemma Extract_panics:
  assumes "well_formed s" "len s < 22"
  shows "fst (ExtractCombustionPacket fused s) = Inl
    (if len s = 0 then IndexOutOfRange 0 0
     else if cap s < 5 then SliceBoundsOutOfRange 5 (cap s)
     else if len s \<le> 18 then IndexOutOfRange 18 (len s)
     else if len s = 19 then IndexOutOfRange 19 19
     else IndexOutOfRange 21 (len s))"
  using assms by (simp add: run_simps)

lemmas example_simps = normal_packet_def instant_read_packet_def reserved_packet_def
  error_packet_def unlisted_type_packet_def short_packet_def well_formed_def cap_def

section \<open>Bytes and bit fields\<close>

lemma c70: "(0x70 :: byte) = push_bit 4 (mask 3)" by (simp add: mask_numeral)

lemma c03: "(0x03 :: byte) = mask 2" by (simp add: mask_numeral)

lemma probe_zero: "drop_bit 5 (b :: byte) AND 0x70 = 0"
  unfolding c70 by (rule bit_word_eqI) (auto simp: bit_simps dest: bit_imp_le_length)

lemma and3_le: "unat ((w :: byte) AND 0x03) \<le> 3"
proof -
  have "unat (w AND 3) \<le> unat (3 :: byte)"
    by (rule word_and_le1 [THEN word_le_nat_alt [THEN iffD1]])
  then show ?thesis by simp
qed

lemma and7_le: "unat ((w :: byte) AND 0x07) \<le> 7"
proof -
  have "unat (w AND 7) \<le> unat (7 :: byte)"
    by (rule word_and_le1 [THEN word_le_nat_alt [THEN iffD1]])
  then show ?thesis by simp
qed

lemma plus3: "unat (((w :: byte) AND 0x03) + 3) = unat (w AND 0x03) + 3"
  using and3_le [of w] by (simp add: unat_word_ariths)

lemma plus4: "unat (((w :: byte) AND 0x03) + 4) = unat (w AND 0x03) + 4"
  using and3_le [of w] by (simp add: unat_word_ariths)

lemma color_values: "drop_bit 2 (b :: byte) AND 0x70 \<in> {0x00, 0x10, 0x20, 0x30}"
proof -
  define z where "z = drop_bit 6 b AND 0x03"
  have eq: "drop_bit 2 b AND 0x70 = push_bit 4 z"
    unfolding z_def c70 c03
    by (intro bit_word_eqI) (auto simp: bit_simps dest: bit_imp_le_length)
  have "unat z \<le> 3" unfolding z_def by (rule and3_le)
  then have "unat z \<in> {0, 1, 2, 3}" by auto
  then have "z \<in> {0, 1, 2, 3}"
    by (simp add: word_unat_eq_iff)
  then consider "z = 0" | "z = 1" | "z = 2" | "z = 3" by auto
  then have "push_bit 4 z \<in> {0x00, 0x10, 0x20, 0x30}" by cases simp_all
  then show ?thesis by (simp only: eq)
qed

lemma mask_test:
  assumes "i < 8"
  shows "((b :: byte) AND push_bit i 1 = push_bit i 1) \<longleftrightarrow> bit b i"
proof
  assume eq: "b AND push_bit i 1 = push_bit i 1"
  have "bit (push_bit i 1 :: byte) i" using assms by (simp add: bit_simps)
  then have "bit (b AND push_bit i 1) i" by (simp only: eq)
  then show "bit b i" by (simp add: bit_simps)
next
  assume "bit b i"
  then show "b AND push_bit i 1 = push_bit i 1"
    by (intro bit_word_eqI) (auto simp: bit_simps)
qed

lemma mask_test_nonzero: "((b :: byte) AND push_bit i 1 \<noteq> 0) \<longleftrightarrow> bit b i"
  by (simp add: bit_iff_and_push_bit_not_eq_0)

lemma mask_test_pow:
  assumes "i < 8"
  shows "((b :: byte) AND 2 ^ i = 2 ^ i) \<longleftrightarrow> (b AND 2 ^ i \<noteq> 0)"
  using mask_test [OF assms, of b] mask_test_nonzero [of b i] by simp


lemma hex_digit: "k < 16 \<Longrightarrow> hextable ! k \<in> set hextable"
  by (rule nth_mem) (simp add: hextable_def)

lemma nibble_hi: "unat (drop_bit 4 (v :: byte)) < 16"
proof -
  have "unat (drop_bit 4 v) = drop_bit 4 (unat v)"
    by (rule unat_drop_bit_eq)
  then have "unat (drop_bit 4 v) = unat v div 2 ^ 4"
    by (simp only: drop_bit_eq_div)
  moreover have "unat v < 2 ^ 8" using unsigned_less [of v] by simp
  ultimately show ?thesis by simp
qed

lemma nibble_lo: "unat ((v :: byte) AND 0x0f) < 16"
proof -
  have "unat (v AND 0x0f) \<le> unat (0x0f :: byte)"
    by (rule word_and_le1 [THEN word_le_nat_alt [THEN iffD1]])
  then show ?thesis by simp
qed

lemma set_encode_bytes: "set (encode_bytes bs) \<subseteq> set hextable"
  by (auto simp: encode_bytes_def hex_digit nibble_hi nibble_lo)

lemma length_encode_bytes: "length (encode_bytes bs) = 2 * length bs"
  by (induction bs) (simp_all add: encode_bytes_def)

lemma reversed_serial:
  assumes "5 \<le> length a"
  shows "rev (take 4 (drop 1 a)) = [a ! 4, a ! 3, a ! 2, a ! 1]"
proof -
  have "take 4 (drop 1 a) = [a ! 1, a ! 2, a ! 3, a ! 4]"
    using assms by (simp add: list_eq_iff_nth_eq less_Suc_eq numeral_eq_Suc)
  then show ?thesis by simp
qed

lemma mode_values: "(b :: byte) AND 0x03 \<in> {0, 1, 2, 3}"
proof -
  have "unat (b AND 0x03) \<le> 3" by (rule and3_le)
  then have "unat (b AND 0x03) \<in> {0, 1, 2, 3}" by auto
  then show ?thesis by (simp add: word_unat_eq_iff)
qed

lemma nibble_hi_div: "unat (drop_bit 4 (v :: byte)) = unat v div 16"
proof -
  have "unat (drop_bit 4 v) = drop_bit 4 (unat v)"
    by (rule unat_drop_bit_eq)
  then show ?thesis by (simp only: drop_bit_eq_div) simp
qed

lemma nibble_lo_mod: "unat ((v :: byte) AND 0x0f) = unat v mod 16"
proof -
  have "(0x0f :: byte) = mask 4" by (simp add: mask_numeral)
  then have "v AND 0x0f = take_bit 4 v" by (simp only: take_bit_eq_mask)
  then have "unat (v AND 0x0f) = take_bit 4 (unat v)"
    by (simp only: unsigned_take_bit_eq)
  then show ?thesis by (simp only: take_bit_eq_mod) simp
qed

lemma encode_bytes_4:
  "encode_bytes [b0, b1, b2, b3] =
    [hextable ! (unat b0 div 16), hextable ! (unat b0 mod 16),
     hextable ! (unat b1 div 16), hextable ! (unat b1 mod 16),
     hextable ! (unat b2 div 16), hextable ! (unat b2 mod 16),
     hextable ! (unat b3 div 16), hextable ! (unat b3 mod 16)]"
  by (simp add: encode_bytes_def nibble_hi_div nibble_lo_mod)

lemma serial_digits:
  assumes "i < 4"
  shows "encode_bytes [a ! 4, a ! 3, a ! 2, a ! 1] ! (2 * i) = hextable ! (unat (a ! (4 - i)) div 16) \<and>
    encode_bytes [a ! 4, a ! 3, a ! 2, a ! 1] ! (2 * i + 1) = hextable ! (unat (a ! (4 - i)) mod 16)"
proof -
  from assms have "i = 0 \<or> i = 1 \<or> i = 2 \<or> i = 3" by linarith
  then show ?thesis
    unfolding encode_bytes_4 by (elim disjE) simp_all
qed

section \<open>The bits of the raw readings\<close>

text \<open>
  Bit \<open>n\<close> of the raw reading of thermistor \<open>k + 1\<close> is bit \<open>13 * k + n\<close> of
  bytes 5 to 17 as they are received, counted from the least significant bit of byte 5.
\<close>

lemma byte_masks:
  "(0x01 :: byte) = mask 1" "(0x03 :: byte) = mask 2" "(0x07 :: byte) = mask 3"
  "(0x0f :: byte) = mask 4" "(0x1f :: byte) = mask 5" "(0x3f :: byte) = mask 6"
  "(0x7f :: byte) = mask 7" "(0xff :: byte) = mask 8"
  "(0x80 :: byte) = push_bit 7 (mask 1)" "(0xc0 :: byte) = push_bit 6 (mask 2)"
  "(0xe0 :: byte) = push_bit 5 (mask 3)" "(0xf0 :: byte) = push_bit 4 (mask 4)"
  "(0xfc :: byte) = push_bit 2 (mask 6)" "(0xfe :: byte) = push_bit 1 (mask 7)"
  by (simp_all add: mask_numeral)

lemma field_high:
  fixes b :: byte
  shows "bit (push_bit s (ucast (b AND mask m)) :: uint16) n \<longleftrightarrow>
         s \<le> n \<and> n < 16 \<and> n - s < m \<and> bit b (n - s)"
  by (auto simp: bit_simps dest: bit_imp_le_length)

lemma field_low:
  fixes b :: byte
  shows "bit (drop_bit d (ucast (b AND push_bit d (mask m))) :: uint16) n \<longleftrightarrow>
         n < m \<and> bit b (d + n)"
  by (auto simp: bit_simps dest: bit_imp_le_length)

lemma field_low_unmasked:
  fixes b :: byte
  shows "bit (drop_bit d (ucast b) :: uint16) n \<longleftrightarrow> bit b (d + n)"
  by (auto simp: bit_simps dest: bit_imp_le_length)

lemma field_low_unshifted:
  fixes b :: byte
  shows "bit (ucast (b AND mask 8) :: uint16) n \<longleftrightarrow> bit b n"
  by (auto simp: bit_simps dest: bit_imp_le_length)

lemmas field_bits = bit_or_iff field_high field_low field_low_unshifted

lemma wire_position:
  fixes off n q :: nat
  assumes "8 * q \<le> off + n" "off + n < 8 * q + 8"
  shows "(off + n) div 8 = q \<and> (off + n) mod 8 = off + n - 8 * q"
proof -
  have d: "(off + n) div 8 = q"
    using assms by (intro div_nat_eqI) simp_all
  have "(off + n) mod 8 = off + n - 8 * ((off + n) div 8)"
    by (simp add: modulo_nat_def)
  with d show ?thesis by simp
qed

lemma wire_raw_nth:
  "wire_raw a ! 0 = push_bit 8 (ucast (a ! 6 AND 0x1f)) OR ucast (a ! 5 AND 0xff)"
  "wire_raw a ! 1 = push_bit 11 (ucast (a ! 8 AND 0x03)) OR push_bit 3 (ucast (a ! 7 AND 0xff))
       OR drop_bit 5 (ucast (a ! 6 AND 0xe0))"
  "wire_raw a ! 2 = push_bit 6 (ucast (a ! 9 AND 0x7f)) OR drop_bit 2 (ucast (a ! 8 AND 0xfc))"
  "wire_raw a ! 3 = push_bit 9 (ucast (a ! 11 AND 0x0f)) OR push_bit 1 (ucast (a ! 10 AND 0xff))
       OR drop_bit 7 (ucast (a ! 9 AND 0x80))"
  "wire_raw a ! 4 = push_bit 12 (ucast (a ! 13 AND 0x01)) OR push_bit 4 (ucast (a ! 12 AND 0xff))
       OR drop_bit 4 (ucast (a ! 11 AND 0xf0))"
  "wire_raw a ! 5 = push_bit 7 (ucast (a ! 14 AND 0x3f)) OR drop_bit 1 (ucast (a ! 13 AND 0xfe))"
  "wire_raw a ! 6 = push_bit 10 (ucast (a ! 16 AND 0x07)) OR push_bit 2 (ucast (a ! 15 AND 0xff))
       OR drop_bit 6 (ucast (a ! 14 AND 0xc0))"
  "wire_raw a ! 7 = push_bit 5 (ucast (a ! 17 AND 0xff)) OR drop_bit 3 (ucast (a ! 16))"
  by (simp_all add: wire_raw_def)

lemma field_0:
  fixes a :: "byte list"
  shows "bit (push_bit 8 (ucast (a ! 6 AND 0x1f)) OR ucast (a ! 5 AND 0xff) :: uint16) n \<longleftrightarrow>
     (n < 8 \<and> bit (a ! 5) (n)) \<or>
     (8 \<le> n \<and> n < 13 \<and> bit (a ! 6) (n - 8))"
  unfolding byte_masks
  by (simp only: field_bits) (auto dest: bit_imp_le_length)

lemma thermistor_0:
  "bit (wire_raw a ! 0) n \<longleftrightarrow>
     n < 13 \<and> bit (a ! (5 + (0 + n) div 8)) ((0 + n) mod 8)"
proof -
  have "n < 8 \<Longrightarrow> (0 + n) div 8 = 0 \<and> (0 + n) mod 8 = n"
    "8 \<le> n \<Longrightarrow> n < 13 \<Longrightarrow> (0 + n) div 8 = 1 \<and> (0 + n) mod 8 = n - 8"
    using wire_position [of 0 0 n] wire_position [of 1 0 n]
    by simp_all
  then show ?thesis
    unfolding wire_raw_nth field_0 by (cases "n < 8"; cases "n < 13"; simp)
qed

lemma field_1:
  fixes a :: "byte list"
  shows "bit (push_bit 11 (ucast (a ! 8 AND 0x03)) OR push_bit 3 (ucast (a ! 7 AND 0xff))
       OR drop_bit 5 (ucast (a ! 6 AND 0xe0)) :: uint16) n \<longleftrightarrow>
     (n < 3 \<and> bit (a ! 6) (5 + n)) \<or>
     (3 \<le> n \<and> n < 11 \<and> bit (a ! 7) (n - 3)) \<or>
     (11 \<le> n \<and> n < 13 \<and> bit (a ! 8) (n - 11))"
  unfolding byte_masks
  by (simp only: field_bits) (auto dest: bit_imp_le_length)

lemma thermistor_1:
  "bit (wire_raw a ! 1) n \<longleftrightarrow>
     n < 13 \<and> bit (a ! (5 + (13 + n) div 8)) ((13 + n) mod 8)"
proof -
  have "n < 3 \<Longrightarrow> (13 + n) div 8 = 1 \<and> (13 + n) mod 8 = 5 + n"
    "3 \<le> n \<Longrightarrow> n < 11 \<Longrightarrow> (13 + n) div 8 = 2 \<and> (13 + n) mod 8 = n - 3"
    "11 \<le> n \<Longrightarrow> n < 13 \<Longrightarrow> (13 + n) div 8 = 3 \<and> (13 + n) mod 8 = n - 11"
    using wire_position [of 1 13 n] wire_position [of 2 13 n] wire_position [of 3 13 n]
    by simp_all
  then show ?thesis
    unfolding wire_raw_nth field_1 by (cases "n < 3"; cases "n < 11"; cases "n < 13"; simp)
qed

lemma field_2:
  fixes a :: "byte list"
  shows "bit (push_bit 6 (ucast (a ! 9 AND 0x7f)) OR drop_bit 2 (ucast (a ! 8 AND 0xfc)) :: uint16) n \<longleftrightarrow>
     (n < 6 \<and> bit (a ! 8) (2 + n)) \<or>
     (6 \<le> n \<and> n < 13 \<and> bit (a ! 9) (n - 6))"
  unfolding byte_masks
  by (simp only: field_bits) (auto dest: bit_imp_le_length)

lemma thermistor_2:
  "bit (wire_raw a ! 2) n \<longleftrightarrow>
     n < 13 \<and> bit (a ! (5 + (26 + n) div 8)) ((26 + n) mod 8)"
proof -
  have "n < 6 \<Longrightarrow> (26 + n) div 8 = 3 \<and> (26 + n) mod 8 = 2 + n"
    "6 \<le> n \<Longrightarrow> n < 13 \<Longrightarrow> (26 + n) div 8 = 4 \<and> (26 + n) mod 8 = n - 6"
    using wire_position [of 3 26 n] wire_position [of 4 26 n]
    by simp_all
  then show ?thesis
    unfolding wire_raw_nth field_2 by (cases "n < 6"; cases "n < 13"; simp)
qed

lemma field_3:
  fixes a :: "byte list"
  shows "bit (push_bit 9 (ucast (a ! 11 AND 0x0f)) OR push_bit 1 (ucast (a ! 10 AND 0xff))
       OR drop_bit 7 (ucast (a ! 9 AND 0x80)) :: uint16) n \<longleftrightarrow>
     (n < 1 \<and> bit (a ! 9) (7 + n)) \<or>
     (1 \<le> n \<and> n < 9 \<and> bit (a ! 10) (n - 1)) \<or>
     (9 \<le> n \<and> n < 13 \<and> bit (a ! 11) (n - 9))"
  unfolding byte_masks
  by (simp only: field_bits) (auto dest: bit_imp_le_length)

lemma thermistor_3:
  "bit (wire_raw a ! 3) n \<longleftrightarrow>
     n < 13 \<and> bit (a ! (5 + (39 + n) div 8)) ((39 + n) mod 8)"
proof -
  have "n < 1 \<Longrightarrow> (39 + n) div 8 = 4 \<and> (39 + n) mod 8 = 7 + n"
    "1 \<le> n \<Longrightarrow> n < 9 \<Longrightarrow> (39 + n) div 8 = 5 \<and> (39 + n) mod 8 = n - 1"
    "9 \<le> n \<Longrightarrow> n < 13 \<Longrightarrow> (39 + n) div 8 = 6 \<and> (39 + n) mod 8 = n - 9"
    using wire_position [of 4 39 n] wire_position [of 5 39 n] wire_position [of 6 39 n]
    by simp_all
  then show ?thesis
    unfolding wire_raw_nth field_3 by (cases "n < 1"; cases "n < 9"; cases "n < 13"; simp)
qed

lemma field_4:
  fixes a :: "byte list"
  shows "bit (push_bit 12 (ucast (a ! 13 AND 0x01)) OR push_bit 4 (ucast (a ! 12 AND 0xff))
       OR drop_bit 4 (ucast (a ! 11 AND 0xf0)) :: uint16) n \<longleftrightarrow>
     (n < 4 \<and> bit (a ! 11) (4 + n)) \<or>
     (4 \<le> n \<and> n < 12 \<and> bit (a ! 12) (n - 4)) \<or>
     (12 \<le> n \<and> n < 13 \<and> bit (a ! 13) (n - 12))"
  unfolding byte_masks
  by (simp only: field_bits) (auto dest: bit_imp_le_length)

lemma thermistor_4:
  "bit (wire_raw a ! 4) n \<longleftrightarrow>
     n < 13 \<and> bit (a ! (5 + (52 + n) div 8)) ((52 + n) mod 8)"
proof -
  have "n < 4 \<Longrightarrow> (52 + n) div 8 = 6 \<and> (52 + n) mod 8 = 4 + n"
    "4 \<le> n \<Longrightarrow> n < 12 \<Longrightarrow> (52 + n) div 8 = 7 \<and> (52 + n) mod 8 = n - 4"
    "12 \<le> n \<Longrightarrow> n < 13 \<Longrightarrow> (52 + n) div 8 = 8 \<and> (52 + n) mod 8 = n - 12"
    using wire_position [of 6 52 n] wire_position [of 7 52 n] wire_position [of 8 52 n]
    by simp_all
  then show ?thesis
    unfolding wire_raw_nth field_4 by (cases "n < 4"; cases "n < 12"; cases "n < 13"; simp)
qed

lemma field_5:
  fixes a :: "byte list"
  shows "bit (push_bit 7 (ucast (a ! 14 AND 0x3f)) OR drop_bit 1 (ucast (a ! 13 AND 0xfe)) :: uint16) n \<longleftrightarrow>
     (n < 7 \<and> bit (a ! 13) (1 + n)) \<or>
     (7 \<le> n \<and> n < 13 \<and> bit (a ! 14) (n - 7))"
  unfolding byte_masks
  by (simp only: field_bits) (auto dest: bit_imp_le_length)

lemma thermistor_5:
  "bit (wire_raw a ! 5) n \<longleftrightarrow>
     n < 13 \<and> bit (a ! (5 + (65 + n) div 8)) ((65 + n) mod 8)"
proof -
  have "n < 7 \<Longrightarrow> (65 + n) div 8 = 8 \<and> (65 + n) mod 8 = 1 + n"
    "7 \<le> n \<Longrightarrow> n < 13 \<Longrightarrow> (65 + n) div 8 = 9 \<and> (65 + n) mod 8 = n - 7"
    using wire_position [of 8 65 n] wire_position [of 9 65 n]
    by simp_all
  then show ?thesis
    unfolding wire_raw_nth field_5 by (cases "n < 7"; cases "n < 13"; simp)
qed

lemma field_6:
  fixes a :: "byte list"
  shows "bit (push_bit 10 (ucast (a ! 16 AND 0x07)) OR push_bit 2 (ucast (a ! 15 AND 0xff))
       OR drop_bit 6 (ucast (a ! 14 AND 0xc0)) :: uint16) n \<longleftrightarrow>
     (n < 2 \<and> bit (a ! 14) (6 + n)) \<or>
     (2 \<le> n \<and> n < 10 \<and> bit (a ! 15) (n - 2)) \<or>
     (10 \<le> n \<and> n < 13 \<and> bit (a ! 16) (n - 10))"
  unfolding byte_masks
  by (simp only: field_bits) (auto dest: bit_imp_le_length)

lemma thermistor_6:
  "bit (wire_raw a ! 6) n \<longleftrightarrow>
     n < 13 \<and> bit (a ! (5 + (78 + n) div 8)) ((78 + n) mod 8)"
proof -
  have "n < 2 \<Longrightarrow> (78 + n) div 8 = 9 \<and> (78 + n) mod 8 = 6 + n"
    "2 \<le> n \<Longrightarrow> n < 10 \<Longrightarrow> (78 + n) div 8 = 10 \<and> (78 + n) mod 8 = n - 2"
    "10 \<le> n \<Longrightarrow> n < 13 \<Longrightarrow> (78 + n) div 8 = 11 \<and> (78 + n) mod 8 = n - 10"
    using wire_position [of 9 78 n] wire_position [of 10 78 n] wire_position [of 11 78 n]
    by simp_all
  then show ?thesis
    unfolding wire_raw_nth field_6 by (cases "n < 2"; cases "n < 10"; cases "n < 13"; simp)
qed

lemma field_7:
  fixes a :: "byte list"
  shows "bit (push_bit 5 (ucast (a ! 17 AND 0xff)) OR drop_bit 3 (ucast (a ! 16)) :: uint16) n \<longleftrightarrow>
     (n < 5 \<and> bit (a ! 16) (3 + n)) \<or>
     (5 \<le> n \<and> n < 13 \<and> bit (a ! 17) (n - 5))"
  unfolding byte_masks
  by (simp only: field_bits field_low_unmasked) (auto dest: bit_imp_le_length)

lemma thermistor_7:
  "bit (wire_raw a ! 7) n \<longleftrightarrow>
     n < 13 \<and> bit (a ! (5 + (91 + n) div 8)) ((91 + n) mod 8)"
proof -
  have "n < 5 \<Longrightarrow> (91 + n) div 8 = 11 \<and> (91 + n) mod 8 = 3 + n"
    "5 \<le> n \<Longrightarrow> n < 13 \<Longrightarrow> (91 + n) div 8 = 12 \<and> (91 + n) mod 8 = n - 5"
    using wire_position [of 11 91 n] wire_position [of 12 91 n]
    by simp_all
  then show ?thesis
    unfolding wire_raw_nth field_7 by (cases "n < 5"; cases "n < 13"; simp)
qed

lemma raw_less:
  fixes w :: uint16
  assumes "\<And>n. bit w n \<Longrightarrow> n < 13"
  shows "unat w < 2 ^ 13"
proof -
  have "take_bit 13 w = w"
    using assms by (intro bit_word_eqI) (auto simp: bit_simps)
  then have "unat w = take_bit 13 (unat w)"
    by (metis unsigned_take_bit_eq)
  then show ?thesis
    by (metis take_bit_nat_less_exp)
qed

lemma thermistor_bits:
  assumes "k < 8"
  shows "bit (wire_raw a ! k) n \<longleftrightarrow>
     n < 13 \<and> bit (a ! (5 + (13 * k + n) div 8)) ((13 * k + n) mod 8)"
proof -
  from assms have "k = 0 \<or> k = 1 \<or> k = 2 \<or> k = 3 \<or> k = 4 \<or> k = 5 \<or> k = 6 \<or> k = 7"
    by linarith
  then show ?thesis
    using thermistor_0 [of a n] thermistor_1 [of a n] thermistor_2 [of a n] thermistor_3 [of a n]
      thermistor_4 [of a n] thermistor_5 [of a n] thermistor_6 [of a n] thermistor_7 [of a n]
    by (elim disjE) simp_all
qed

lemma wire_bits:
  assumes "j < 104"
  shows "bit (a ! (5 + j div 8)) (j mod 8) \<longleftrightarrow> bit (wire_raw a ! (j div 13)) (j mod 13)"
proof -
  have "j div 13 < 8" using assms by simp
  then show ?thesis by (simp add: thermistor_bits)
qed

lemma length_wire_raw: "length (wire_raw a) = 8"
  by (simp add: wire_raw_def)

lemma wire_raw_less:
  assumes "r \<in> set (wire_raw a)"
  shows "unat r < 2 ^ 13"
proof -
  from assms obtain k where "k < 8" "r = wire_raw a ! k"
    by (metis in_set_conv_nth length_wire_raw)
  then show ?thesis
    using thermistor_bits [of k a] by (intro raw_less) simp
qed

lemma three_bytes:
  fixes k :: nat
  assumes "k < 8"
  shows "(13 * k + 12) div 8 \<le> (13 * k) div 8 + 2"
proof -
  from assms have "k = 0 \<or> k = 1 \<or> k = 2 \<or> k = 3 \<or> k = 4 \<or> k = 5 \<or> k = 6 \<or> k = 7"
    by linarith
  then show ?thesis by (elim disjE) simp_all
qed

section \<open>Rounding to single precision\<close>

lemma floorlog_rat_bounds:
  assumes "0 < n"
  shows "(2::rat) ^ (floorlog 2 n - 1) \<le> of_nat n" "of_nat n + 1 \<le> (2::rat) ^ floorlog 2 n"
    "0 < floorlog 2 n"
proof -
  from floorlog_bounds [of n 2] assms
  have b: "2 ^ (floorlog 2 n - 1) \<le> n" "n < 2 ^ floorlog 2 n" by simp_all
  from b(1) have "(of_nat (2 ^ (floorlog 2 n - 1)) :: rat) \<le> of_nat n"
    by (simp only: of_nat_le_iff)
  then show "(2::rat) ^ (floorlog 2 n - 1) \<le> of_nat n" by simp
  from b(2) have "n + 1 \<le> 2 ^ floorlog 2 n" by simp
  then have "(of_nat (n + 1) :: rat) \<le> of_nat (2 ^ floorlog 2 n)"
    by (simp only: of_nat_le_iff)
  then show "of_nat n + 1 \<le> (2::rat) ^ floorlog 2 n" by simp
  show "0 < floorlog 2 n" using assms by (simp add: floorlog_def)
qed

lemma ilog2_bounds:
  assumes "0 < x"
  shows "2 powi ilog2 x \<le> x \<and> x < 2 powi (ilog2 x + 1)"
proof (cases "1 \<le> x")
  case True
  define n where "n = nat \<lfloor>x\<rfloor>"
  have fl: "1 \<le> \<lfloor>x\<rfloor>" using True by simp
  then have n0: "0 < n" by (simp add: n_def)
  have nx: "(of_nat n :: rat) = of_int \<lfloor>x\<rfloor>"
    using fl by (simp add: n_def)
  have n1: "of_nat n \<le> x" unfolding nx by (rule of_int_floor_le)
  have n2: "x < of_nat n + 1" unfolding nx using floor_correct [of x] by simp
  note b = floorlog_rat_bounds [OF n0]
  have lo: "(2::rat) ^ (floorlog 2 n - 1) \<le> x" using b(1) n1 by (rule order_trans)
  have hi: "x < (2::rat) ^ floorlog 2 n" using n2 b(2) by (rule less_le_trans)
  have il: "ilog2 x = int (floorlog 2 n - 1)"
    using True b(3) by (simp add: ilog2_def n_def)
  have il1: "ilog2 x + 1 = int (floorlog 2 n)"
    using b(3) unfolding il by simp
  show ?thesis unfolding il1 unfolding il using lo hi by simp
next
  case False
  define y where "y = 1 / x"
  define m where "m = nat (\<lceil>y\<rceil> - 1)"
  have y1: "1 < y" "0 < y" using False assms by (simp_all add: y_def)
  have xy: "x = 1 / y" using assms by (simp add: y_def)
  have ce: "2 \<le> \<lceil>y\<rceil>" using y1 by linarith
  then have m0: "0 < m" by (simp add: m_def)
  have my: "(of_nat m :: rat) = of_int \<lceil>y\<rceil> - 1"
    using ce by (simp add: m_def)
  have m1: "of_nat m < y" unfolding my using ceiling_correct [of y] by simp
  have m2: "y \<le> of_nat m + 1" unfolding my using ceiling_correct [of y] by simp
  note b = floorlog_rat_bounds [OF m0]
  have lo: "(2::rat) ^ (floorlog 2 m - 1) < y" using b(1) m1 by (rule le_less_trans)
  have hi: "y \<le> (2::rat) ^ floorlog 2 m" using m2 b(2) by (rule order_trans)
  have il: "ilog2 x = - int (floorlog 2 m)"
    using False by (simp add: ilog2_def m_def y_def)
  have il1: "ilog2 x + 1 = - int (floorlog 2 m - 1)"
    using b(3) unfolding il by simp
  have "1 / (2::rat) ^ floorlog 2 m \<le> 1 / y"
    using hi y1(2) by (intro divide_left_mono) simp_all
  moreover have "1 / y < 1 / (2::rat) ^ (floorlog 2 m - 1)"
    using lo y1(2) by (intro divide_strict_left_mono) simp_all
  ultimately have "1 / (2::rat) ^ floorlog 2 m \<le> x" "x < 1 / (2::rat) ^ (floorlog 2 m - 1)"
    unfolding xy by simp_all
  then show ?thesis
    unfolding il1 unfolding il by (simp add: power_int_minus divide_inverse)
qed

lemma power_int_2_mono:
  fixes a b :: int
  assumes "a \<le> b"
  shows "(2::rat) powi a \<le> 2 powi b"
  using assms by (intro power_int_increasing) simp_all

lemma ilog2_unique:
  assumes "0 < x" "2 powi L \<le> x" "x < 2 powi (L + 1)"
  shows "ilog2 x = L"
proof (rule ccontr)
  assume ne: "ilog2 x \<noteq> L"
  note b = ilog2_bounds [OF assms(1)]
  show False
  proof (cases "ilog2 x < L")
    case True
    then have "ilog2 x + 1 \<le> L" by simp
    then have "(2::rat) powi (ilog2 x + 1) \<le> 2 powi L" by (rule power_int_2_mono)
    with b assms(2) show False by linarith
  next
    case False
    with ne have "L + 1 \<le> ilog2 x" by simp
    then have "(2::rat) powi (L + 1) \<le> 2 powi ilog2 x" by (rule power_int_2_mono)
    with b assms(3) show False by linarith
  qed
qed

lemma round_half_even_error: "\<bar>of_int (round_half_even q) - q\<bar> \<le> 1 / 2"
proof -
  define n where "n = \<lfloor>q\<rfloor>"
  have "of_int n \<le> q" "q < of_int n + 1"
    using floor_correct [of q] by (simp_all add: n_def)
  then show ?thesis
    unfolding round_half_even_def Let_def n_def [symmetric]
    by (auto simp: abs_if)
qed

lemma round_half_even_of_int [simp]: "round_half_even (of_int k) = k"
  by (simp add: round_half_even_def)

lemma f32_round_minus: "f32_round (- x) = - f32_round x"
  by (simp add: f32_round_def Let_def)

lemma f32_round_normal:
  assumes "2 powi L \<le> \<bar>x\<bar>" "\<bar>x\<bar> < 2 powi (L + 1)" "- 126 \<le> L"
  shows "f32_round x = sgn x * of_int (round_half_even (\<bar>x\<bar> / 2 powi (L - 23))) * 2 powi (L - 23)"
proof -
  have "0 < (2::rat) powi L" by simp
  with assms(1) have pos: "0 < \<bar>x\<bar>" by linarith
  then have "ilog2 \<bar>x\<bar> = L" using assms(1,2) by (rule ilog2_unique)
  with pos assms(3) show ?thesis by (simp add: f32_round_def Let_def max_def)
qed


lemma f32_round_error:
  assumes "2 powi L \<le> \<bar>x\<bar>" "\<bar>x\<bar> < 2 powi (L + 1)" "- 126 \<le> L"
  shows "\<bar>f32_round x - x\<bar> \<le> 2 powi (L - 24)"
proof -
  define u :: rat where "u = 2 powi (L - 23)"
  define k where "k = round_half_even (\<bar>x\<bar> / u)"
  have u: "0 < u" by (simp add: u_def)
  have fr: "f32_round x = sgn x * of_int k * u"
    unfolding k_def u_def using assms by (rule f32_round_normal)
  have "x = sgn x * (\<bar>x\<bar> / u) * u" using u by (simp add: sgn_mult_abs)
  then have "f32_round x - x = sgn x * (of_int k - \<bar>x\<bar> / u) * u"
    unfolding fr by (simp add: algebra_simps)
  then have "\<bar>f32_round x - x\<bar> = \<bar>sgn x\<bar> * \<bar>of_int k - \<bar>x\<bar> / u\<bar> * u"
    using u by (simp add: abs_mult)
  also have "\<dots> \<le> 1 * (1 / 2) * u"
    using u round_half_even_error [of "\<bar>x\<bar> / u"] unfolding k_def
    by (intro mult_mono) (simp_all add: abs_sgn_eq)
  also have "\<dots> = 2 powi (L - 24)"
    unfolding u_def using power_int_add [of "2::rat" "L - 24" 1] by simp
  finally show ?thesis .
qed

lemma f32_round_of_nat:
  assumes "n < 2 ^ 24"
  shows "f32_round (of_nat n) = of_nat n"
proof (cases "n = 0")
  case True
  then show ?thesis by (simp add: f32_round_def)
next
  case False
  then have n0: "0 < n" by simp
  define L where "L = floorlog 2 n - 1"
  note b = floorlog_rat_bounds [OF n0]
  have L1: "floorlog 2 n = Suc L" using b(3) by (simp add: L_def)
  have "floorlog 2 n \<le> 24" using assms by (simp add: floorlog_le_iff)
  then have L23: "L \<le> 23" using L1 by simp
  have lo: "(2::rat) powi int L \<le> \<bar>of_nat n\<bar>" using b(1) by (simp add: L_def)
  have "(of_nat n :: rat) < 2 ^ Suc L" using b(2) unfolding L1 by linarith
  then have hi: "\<bar>of_nat n :: rat\<bar> < 2 powi (int L + 1)"
    by (simp add: power_int_add)
  have e: "int L - 23 = - int (23 - L)" using L23 by simp
  have q: "\<bar>of_nat n :: rat\<bar> / 2 powi (int L - 23) = of_int (int (n * 2 ^ (23 - L)))"
    unfolding e by (simp add: power_int_minus divide_inverse)
  have "f32_round (of_nat n) =
      sgn (of_nat n) * of_int (round_half_even (\<bar>of_nat n\<bar> / 2 powi (int L - 23))) * 2 powi (int L - 23)"
    using lo hi by (intro f32_round_normal) simp_all
  also have "\<dots> = of_nat n"
    unfolding q round_half_even_of_int unfolding e using n0
    by (simp add: power_int_minus)
  finally show ?thesis .
qed

lemma f32_of_uint16_exact: "f32_of_uint16 raw = of_nat (unat raw)"
proof -
  have "unat raw < 2 ^ 16" using unsigned_less [of raw] by simp
  then have "unat raw < 2 ^ 24" by simp
  then show ?thesis unfolding f32_of_uint16_def by (rule f32_round_of_nat)
qed

lemma round_half_even_nearest:
  assumes "\<bar>q - of_int k\<bar> < 1 / 2"
  shows "round_half_even q = k"
proof (cases "of_int k \<le> q")
  case True
  with assms have "\<lfloor>q\<rfloor> = k" by (intro floor_unique) (simp_all add: abs_if)
  with assms True show ?thesis by (simp add: round_half_even_def abs_if)
next
  case False
  with assms have "\<lfloor>q\<rfloor> = k - 1"
    by (intro floor_unique) (simp_all add: abs_if split: if_splits)
  with assms False show ?thesis
    by (simp add: round_half_even_def abs_if split: if_splits)
qed

lemma f32_round_one_twentieth: "f32_round 0.05 = 13421773 / 2 ^ 28"
proof -
  have "round_half_even (\<bar>0.05\<bar> / 2 powi (- 5 - 23)) = 13421773"
    by (rule round_half_even_nearest) simp
  then show ?thesis
    using f32_round_normal [of "- 5" "0.05"] by simp
qed

lemma f32_round_twenty: "f32_round 20 = 20" "f32_round (- 20) = - 20" "f32_round 20.0 = 20"
  using f32_round_of_nat [of 20] f32_round_minus [of 20] by simp_all

lemma fromRawTemp_unfold:
  "fromRawTemp fused raw =
     (if fused then f32_round (of_nat (unat raw) * (13421773 / 2 ^ 28) - 20)
      else f32_round (f32_round (of_nat (unat raw) * (13421773 / 2 ^ 28)) - 20))"
  by (simp only: fromRawTemp_def f32_sub_def f32_mul_def f32_of_uint16_exact
    f32_round_one_twentieth f32_round_twenty)

lemma fromRawTemp_0: "fromRawTemp fused 0 = - 20"
proof -
  have "f32_round 0 = 0" by (simp add: f32_round_def)
  then show ?thesis by (simp add: fromRawTemp_unfold f32_round_twenty)
qed

lemma fromRawTemp_800: "fromRawTemp fused 800 = 20"
proof (cases fused)
  case True
  have "round_half_even (\<bar>800 * (13421773 / 2 ^ 28) - 20\<bar> / 2 powi (4 - 23)) = 10485760"
    by (rule round_half_even_nearest) simp
  then have "f32_round (800 * (13421773 / 2 ^ 28) - 20) = 20"
    using f32_round_normal [of 4 "800 * (13421773 / 2 ^ 28) - 20"] by simp
  with True show ?thesis by (simp add: fromRawTemp_unfold)
next
  case False
  have "round_half_even (\<bar>800 * (13421773 / 2 ^ 28)\<bar> / 2 powi (5 - 23)) = 10485760"
    by (rule round_half_even_nearest) simp
  then have "f32_round (800 * (13421773 / 2 ^ 28)) = 40"
    using f32_round_normal [of 5 "800 * (13421773 / 2 ^ 28)"] by simp
  with False show ?thesis by (simp add: fromRawTemp_unfold f32_round_twenty)
qed

lemma Temps_returned:
  obtains raws where "Temps (returned_packet fused a) = map (fromRawTemp fused) raws"
    and "set raws \<subseteq> set (wire_raw a)"
proof (cases "a ! 18 AND 0x03 = CombustionModeInstantRead")
  case True
  have "wire_raw a ! 0 \<in> set (wire_raw a)"
    by (rule nth_mem) (simp add: length_wire_raw)
  then have "set [wire_raw a ! 0] \<subseteq> set (wire_raw a)" by simp
  moreover have "Temps (returned_packet fused a) = map (fromRawTemp fused) [wire_raw a ! 0]"
    using True by (simp add: returned_packet_def)
  ultimately show ?thesis using that by blast
next
  case False
  show ?thesis
  proof (cases "a ! 18 AND 0x03 = CombustionModeNormal")
    case True
    with False have "Temps (returned_packet fused a) = map (fromRawTemp fused) (wire_raw a)"
      by (simp add: returned_packet_def)
    then show ?thesis using that by blast
  next
    case False
    with \<open>a ! 18 AND 0x03 \<noteq> CombustionModeInstantRead\<close>
    have "Temps (returned_packet fused a) = map (fromRawTemp fused) []"
      by (simp add: returned_packet_def)
    then show ?thesis using that [of "[]"] by simp
  qed
qed

section \<open>Truncated input\<close>

text \<open>
  C1. Every input shorter than 22 bytes makes the decoder fail with its only fault, the
  bounds panic of the run time, and no packet is returned; every input of at least 22
  bytes is decoded to a packet, so the length is the only precondition.
\<close>

theorem short_input_is_the_only_fault:
  assumes "well_formed s"
  shows "(len s < 22 \<longrightarrow> (\<exists>e. fst (ExtractCombustionPacket fused s) = Inl e)) \<and>
         (22 \<le> len s \<longrightarrow> (\<exists>p. fst (ExtractCombustionPacket fused s) = Inr p))"
  using assms Extract_panics [of s] Extract_returns [of s] by simp

theorem short_input_is_the_only_fault_witness:
  "well_formed short_packet \<and> len short_packet < 22 \<and>
   well_formed normal_packet \<and> 22 \<le> len normal_packet \<and>
   (\<exists>e. fst (ExtractCombustionPacket False short_packet) = Inl e) \<and>
   (\<exists>p. fst (ExtractCombustionPacket False normal_packet) = Inr p)"
  using short_input_is_the_only_fault [of short_packet False]
    short_input_is_the_only_fault [of normal_packet False]
  by (simp add: example_simps)

section \<open>The input buffer\<close>

text \<open>
  C2 as stated fails: the decoder reverses bytes 1 to 4 and bytes 5 to 17 of the caller's
  buffer in place, and \<open>normal_packet\<close> is not the same after the call.
\<close>

theorem input_buffer_is_changed:
  "array (snd (ExtractCombustionPacket False normal_packet)) =
     [0x01, 0x78, 0x56, 0x34, 0x12,
      0x80, 0x03, 0xe8, 0x0f, 0xa0, 0x4b, 0x00, 0xd2, 0x7f, 0xfc, 0x00, 0x03, 0x20,
      0xfc, 0x01, 0x00, 0x81] \<and>
   array (snd (ExtractCombustionPacket False normal_packet)) \<noteq> array normal_packet"
  using Extract_returns [of normal_packet False]
  by (simp add: example_simps reverse_range_def)

text \<open>
  C2, amended. For every input of at least 22 bytes, after the decoder returns the slice
  has its length and capacity, byte \<open>i\<close> of the buffer holds what byte \<open>5 - i\<close>
  held before the call for \<open>1 \<le> i < 5\<close> and what byte \<open>22 - i\<close> held for
  \<open>5 \<le> i < 18\<close>, and every other byte (byte 0 and the bytes from 18 on) is unchanged:
  the two reversals in place are the only writes.
\<close>

theorem input_buffer_is_reversed_in_place:
  assumes "well_formed s" "22 \<le> len s"
  shows "len (snd (ExtractCombustionPacket fused s)) = len s \<and>
         length (array (snd (ExtractCombustionPacket fused s))) = length (array s) \<and>
         (\<forall>i < length (array s). array (snd (ExtractCombustionPacket fused s)) ! i =
            (if 1 \<le> i \<and> i < 5 then array s ! (5 - i)
             else if 5 \<le> i \<and> i < 18 then array s ! (22 - i)
             else array s ! i))"
proof -
  have "18 \<le> length (array s)"
    using assms by (simp add: well_formed_def cap_def)
  then show ?thesis
    using assms by (auto simp: Extract_returns nth_reverse_range)
qed

theorem input_buffer_is_reversed_in_place_witness:
  "well_formed normal_packet \<and> 22 \<le> len normal_packet \<and>
   array (snd (ExtractCombustionPacket False normal_packet)) ! 0 = 0x01 \<and>
   array (snd (ExtractCombustionPacket False normal_packet)) ! 1 = 0x78 \<and>
   array (snd (ExtractCombustionPacket False normal_packet)) ! 4 = 0x12 \<and>
   array (snd (ExtractCombustionPacket False normal_packet)) ! 5 = 0x80 \<and>
   array (snd (ExtractCombustionPacket False normal_packet)) ! 17 = 0x20 \<and>
   array (snd (ExtractCombustionPacket False normal_packet)) ! 18 = 0xfc \<and>
   array (snd (ExtractCombustionPacket False normal_packet)) ! 21 = 0x81"
  using input_buffer_is_reversed_in_place [of normal_packet False]
  by (simp add: example_simps)

section \<open>The product type\<close>

text \<open>
  C3 as stated fails: byte 0 of \<open>unlisted_type_packet\<close> is 7, which no product type
  of the source has, and the decoded product type is 7, not \<open>CombustionUnknownPT\<close>.
\<close>

theorem unlisted_product_type_is_not_Unknown:
  "map_sum id ProductType (fst (ExtractCombustionPacket False unlisted_type_packet)) = Inr 7 \<and>
   (7 :: CombustionProductType) \<noteq> CombustionUnknownPT \<and>
   (7 :: CombustionProductType) \<noteq> CombustionPredictiveProbePT"
  using Extract_returns [of unlisted_type_packet False]
  by (simp add: example_simps returned_packet_def CombustionUnknownPT_def
    CombustionPredictiveProbePT_def)

text \<open>
  C3, amended. For every input of at least 22 bytes the decoder returns a packet (never
  a fault) whose product type is byte 0 itself, whatever its value; it is
  \<open>CombustionUnknownPT\<close> exactly when byte 0 is 0.
\<close>

theorem product_type_is_byte_0:
  assumes "well_formed s" "22 \<le> len s"
  shows "\<exists>p. fst (ExtractCombustionPacket fused s) = Inr p \<and> ProductType p = array s ! 0 \<and>
          (ProductType p = CombustionUnknownPT \<longleftrightarrow> array s ! 0 = 0)"
  using assms by (simp add: Extract_returns returned_packet_def CombustionUnknownPT_def)

theorem product_type_is_byte_0_witness:
  "well_formed unlisted_type_packet \<and> 22 \<le> len unlisted_type_packet \<and>
   (\<exists>p. fst (ExtractCombustionPacket False unlisted_type_packet) = Inr p \<and> ProductType p = 7)"
proof -
  have h: "well_formed unlisted_type_packet" "22 \<le> len unlisted_type_packet"
    by (simp_all add: example_simps)
  from product_type_is_byte_0 [OF h, of False] obtain p
    where "fst (ExtractCombustionPacket False unlisted_type_packet) = Inr p"
      and "ProductType p = array unlisted_type_packet ! 0" by blast
  then have "fst (ExtractCombustionPacket False unlisted_type_packet) = Inr p \<and> ProductType p = 7"
    by (simp add: example_simps)
  then show ?thesis using h by blast
qed

section \<open>The number of temperatures\<close>

text \<open>
  C4. For every input of at least 22 bytes the mode is the two low bits of byte 18, one of
  the four declared modes, and it alone fixes the number of temperatures: 1 in
  \<open>CombustionModeInstantRead\<close>, 8 in \<open>CombustionModeNormal\<close>, 0 in
  \<open>CombustionModeReserved\<close> and \<open>CombustionModeError\<close>.
\<close>

theorem temps_length_by_mode:
  assumes "well_formed s" "22 \<le> len s"
  shows "\<exists>p. fst (ExtractCombustionPacket fused s) = Inr p \<and> Mode p = array s ! 18 AND 0x03 \<and>
          (Mode p = CombustionModeNormal \<or> Mode p = CombustionModeInstantRead \<or>
           Mode p = CombustionModeReserved \<or> Mode p = CombustionModeError) \<and>
          (Mode p = CombustionModeInstantRead \<longrightarrow> length (Temps p) = 1) \<and>
          (Mode p = CombustionModeNormal \<longrightarrow> length (Temps p) = 8) \<and>
          (Mode p = CombustionModeReserved \<or> Mode p = CombustionModeError
             \<longrightarrow> length (Temps p) = 0)"
  using assms mode_values [of "array s ! 18"]
  by (simp add: Extract_returns returned_packet_def wire_raw_def CombustionModeInstantRead_def
    CombustionModeNormal_def CombustionModeReserved_def CombustionModeError_def)

theorem temps_length_by_mode_witness:
  "well_formed normal_packet \<and> 22 \<le> len normal_packet \<and>
   well_formed instant_read_packet \<and> 22 \<le> len instant_read_packet \<and>
   well_formed reserved_packet \<and> 22 \<le> len reserved_packet \<and>
   well_formed error_packet \<and> 22 \<le> len error_packet \<and>
   (\<exists>p. fst (ExtractCombustionPacket False normal_packet) = Inr p \<and>
      Mode p = CombustionModeNormal \<and> length (Temps p) = 8) \<and>
   (\<exists>p. fst (ExtractCombustionPacket False instant_read_packet) = Inr p \<and>
      Mode p = CombustionModeInstantRead \<and> length (Temps p) = 1) \<and>
   (\<exists>p. fst (ExtractCombustionPacket False reserved_packet) = Inr p \<and>
      Mode p = CombustionModeReserved \<and> length (Temps p) = 0) \<and>
   (\<exists>p. fst (ExtractCombustionPacket False error_packet) = Inr p \<and>
      Mode p = CombustionModeError \<and> length (Temps p) = 0)"
proof -
  have n: "well_formed normal_packet" "22 \<le> len normal_packet"
    and i: "well_formed instant_read_packet" "22 \<le> len instant_read_packet"
    and r: "well_formed reserved_packet" "22 \<le> len reserved_packet"
    and e: "well_formed error_packet" "22 \<le> len error_packet"
    by (simp_all add: example_simps)
  have mn: "array normal_packet ! 18 AND 0x03 = CombustionModeNormal"
    and mi: "array instant_read_packet ! 18 AND 0x03 = CombustionModeInstantRead"
    and mr: "array reserved_packet ! 18 AND 0x03 = CombustionModeReserved"
    and me: "array error_packet ! 18 AND 0x03 = CombustionModeError"
    by (simp_all add: example_simps CombustionModeInstantRead_def
      CombustionModeNormal_def CombustionModeReserved_def CombustionModeError_def)
  have "\<exists>p. fst (ExtractCombustionPacket False normal_packet) = Inr p \<and>
      Mode p = CombustionModeNormal \<and> length (Temps p) = 8"
    using temps_length_by_mode [OF n, of False] unfolding mn by (elim exE conjE) auto
  moreover have "\<exists>p. fst (ExtractCombustionPacket False instant_read_packet) = Inr p \<and>
      Mode p = CombustionModeInstantRead \<and> length (Temps p) = 1"
    using temps_length_by_mode [OF i, of False] unfolding mi by (elim exE conjE) auto
  moreover have "\<exists>p. fst (ExtractCombustionPacket False reserved_packet) = Inr p \<and>
      Mode p = CombustionModeReserved \<and> length (Temps p) = 0"
    using temps_length_by_mode [OF r, of False] unfolding mr by (elim exE conjE) auto
  moreover have "\<exists>p. fst (ExtractCombustionPacket False error_packet) = Inr p \<and>
      Mode p = CombustionModeError \<and> length (Temps p) = 0"
    using temps_length_by_mode [OF e, of False] unfolding me by (elim exE conjE) auto
  ultimately show ?thesis
    using n i r e by (intro conjI)
qed

section \<open>The packed thermistor region\<close>

text \<open>
  C5 as stated fails: bytes 5 to 17 are 13 bytes, that is 104 bits, and the 8 fields of 13
  bits that the decoder extracts in \<open>CombustionModeNormal\<close> fill them; 13 fields of 13
  bits would be 169 bits, which 13 bytes do not hold, and no field is left unextracted.
\<close>

theorem region_holds_8_fields_not_13:
  "map_sum id (\<lambda>p. length (Temps p) * 13) (fst (ExtractCombustionPacket False normal_packet)) =
     Inr (length (take (18 - 5) (drop 5 (array normal_packet))) * 8) \<and>
   length (take (18 - 5) (drop 5 (array normal_packet))) * 8 \<noteq> 13 * 13"
  using Extract_returns [of normal_packet False]
  by (simp add: example_simps returned_packet_def length_wire_raw CombustionModeNormal_def CombustionModeInstantRead_def)

text \<open>
  C5, amended. In \<open>CombustionModeNormal\<close> the temperatures are the conversions of 8
  raw readings, which are the 8 consecutive fields of 13 bits of bytes 5 to 17 as received:
  bit \<open>n\<close> of reading \<open>k\<close> is bit \<open>13 * k + n\<close> of the region, counted from the
  least significant bit of byte 5, and a reading has no bit beyond its 13 (so that, after
  the reversal in place, the field of thermistor 8 comes first and the most significant
  bits of a field come first). The 8 fields fill the 104 bits of the 13 bytes with no
  padding, every bit of the region belongs to the reading \<open>j div 13\<close>, so that none is
  left unextracted, and a field lies in at most 3 consecutive bytes.
\<close>

theorem thermistor_fields_fill_the_region:
  assumes "well_formed s" "22 \<le> len s" "array s ! 18 AND 0x03 = CombustionModeNormal"
  shows "\<exists>p raws. fst (ExtractCombustionPacket fused s) = Inr p \<and>
          Temps p = map (fromRawTemp fused) raws \<and> length raws = 8 \<and>
          (\<forall>k<8. \<forall>n. bit (raws ! k) n \<longleftrightarrow>
             n < 13 \<and> bit (array s ! (5 + (13 * k + n) div 8)) ((13 * k + n) mod 8)) \<and>
          (\<forall>j<104. bit (array s ! (5 + j div 8)) (j mod 8) \<longleftrightarrow>
             bit (raws ! (j div 13)) (j mod 13)) \<and>
          (\<forall>k<8. (13 * k + 12) div 8 \<le> (13 * k) div 8 + (2 :: nat))"
proof (intro exI conjI allI impI)
  let ?p = "returned_packet fused (array s)" and ?raws = "wire_raw (array s)"
  show "fst (ExtractCombustionPacket fused s) = Inr ?p"
    using assms by (simp add: Extract_returns)
  show "Temps ?p = map (fromRawTemp fused) ?raws"
    using assms(3)
    by (simp add: returned_packet_def CombustionModeNormal_def CombustionModeInstantRead_def)
  show "length ?raws = 8" by (rule length_wire_raw)
  show "bit (?raws ! k) n \<longleftrightarrow>
      n < 13 \<and> bit (array s ! (5 + (13 * k + n) div 8)) ((13 * k + n) mod 8)"
    if "k < 8" for k n using that by (rule thermistor_bits)
  show "bit (array s ! (5 + j div 8)) (j mod 8) \<longleftrightarrow> bit (?raws ! (j div 13)) (j mod 13)"
    if "j < 104" for j using that by (rule wire_bits)
  show "(13 * k + 12) div 8 \<le> (13 * k) div 8 + (2 :: nat)" if "k < 8" for k
    using that by (rule three_bytes)
qed

theorem thermistor_fields_fill_the_region_witness:
  "well_formed normal_packet \<and> 22 \<le> len normal_packet \<and>
   array normal_packet ! 18 AND 0x03 = CombustionModeNormal \<and>
   (\<exists>p raws. fst (ExtractCombustionPacket False normal_packet) = Inr p \<and>
      Temps p = map (fromRawTemp False) raws \<and> length raws = 8 \<and>
      bit (raws ! 0) 5 \<and> bit (raws ! 0) 8 \<and> bit (raws ! 0) 9 \<and> \<not> bit (raws ! 0) 12 \<and>
      \<not> bit (raws ! 1) 0 \<and> bit (raws ! 2) 0 \<and> bit (raws ! 2) 12 \<and>
      bit (raws ! 7) 12 \<and> \<not> bit (raws ! 7) 11)"
proof -
  have h: "well_formed normal_packet" "22 \<le> len normal_packet"
    "array normal_packet ! 18 AND 0x03 = CombustionModeNormal"
    by (simp_all add: example_simps CombustionModeNormal_def)
  from thermistor_fields_fill_the_region [OF h, of False] obtain p raws
    where p: "fst (ExtractCombustionPacket False normal_packet) = Inr p"
      "Temps p = map (fromRawTemp False) raws" "length raws = 8"
      and bits: "\<And>k n. k < 8 \<Longrightarrow> bit (raws ! k) n \<longleftrightarrow>
        n < 13 \<and> bit (array normal_packet ! (5 + (13 * k + n) div 8)) ((13 * k + n) mod 8)"
    by blast
  have "bit (raws ! 0) 5" "bit (raws ! 0) 8" "bit (raws ! 0) 9" "\<not> bit (raws ! 0) 12"
    "\<not> bit (raws ! 1) 0" "bit (raws ! 2) 0" "bit (raws ! 2) 12"
    "bit (raws ! 7) 12" "\<not> bit (raws ! 7) 11"
    by (simp_all add: bits example_simps)
  with p h show ?thesis by blast
qed

section \<open>The serial number\<close>

text \<open>
  C6. For every input of at least 22 bytes the serial number is the hexadecimal encoding of
  bytes 1 to 4 of the input in reversed order (byte 4 first, byte 1 last): a string of
  exactly 8 characters, each of them a digit or a lower-case letter from a to f, where
  characters \<open>2 * i\<close> and \<open>2 * i + 1\<close> are the high and the low hexadecimal digit
  of byte \<open>4 - i\<close>.
\<close>

theorem serial_number_is_reversed_hex:
  assumes "well_formed s" "22 \<le> len s"
  shows "\<exists>p. fst (ExtractCombustionPacket fused s) = Inr p \<and>
          SerialNumber p = encode_bytes (rev (take 4 (drop 1 (array s)))) \<and>
          length (SerialNumber p) = 8 \<and>
          set (SerialNumber p) \<subseteq> set ''0123456789abcdef'' \<and>
          (\<forall>i<4. SerialNumber p ! (2 * i) = ''0123456789abcdef'' ! (unat (array s ! (4 - i)) div 16) \<and>
             SerialNumber p ! (2 * i + 1) = ''0123456789abcdef'' ! (unat (array s ! (4 - i)) mod 16))"
proof -
  let ?p = "returned_packet fused (array s)"
  have "5 \<le> length (array s)"
    using assms by (simp add: well_formed_def cap_def)
  then have "SerialNumber ?p = encode_bytes (rev (take 4 (drop 1 (array s))))"
    by (simp only: reversed_serial returned_packet_def CombustionPacket.simps)
  moreover have "length (SerialNumber ?p) = 8"
    by (simp add: returned_packet_def length_encode_bytes)
  moreover have "set (SerialNumber ?p) \<subseteq> set ''0123456789abcdef''"
    using set_encode_bytes by (simp add: returned_packet_def hextable_def)
  moreover have "SerialNumber ?p ! (2 * i) = ''0123456789abcdef'' ! (unat (array s ! (4 - i)) div 16) \<and>
      SerialNumber ?p ! (2 * i + 1) = ''0123456789abcdef'' ! (unat (array s ! (4 - i)) mod 16)"
    if "i < 4" for i
    using serial_digits [OF that, of "array s"]
    unfolding hextable_def by (simp only: returned_packet_def CombustionPacket.simps)
  ultimately show ?thesis
    using assms by (simp add: Extract_returns)
qed

theorem serial_number_is_reversed_hex_witness:
  "well_formed normal_packet \<and> 22 \<le> len normal_packet \<and>
   (\<exists>p. fst (ExtractCombustionPacket False normal_packet) = Inr p \<and> SerialNumber p = ''78563412'')"
proof -
  have h: "well_formed normal_packet" "22 \<le> len normal_packet"
    by (simp_all add: example_simps)
  from serial_number_is_reversed_hex [OF h, of False] obtain p
    where "fst (ExtractCombustionPacket False normal_packet) = Inr p"
      and "SerialNumber p = encode_bytes (rev (take 4 (drop 1 (array normal_packet))))" by blast
  then have "fst (ExtractCombustionPacket False normal_packet) = Inr p \<and> SerialNumber p = ''78563412''"
    by (simp add: example_simps encode_bytes_def hextable_def)
  then show ?thesis using h by blast
qed

section \<open>Battery status and virtual sensors\<close>

text \<open>
  C7. For every input of at least 22 bytes the virtual core index is at most 7, the virtual
  surface index is the two-bit field at bits 4 and 5 of byte 19 plus 3 and lies between 3 and
  6, the virtual ambient index is the two-bit field at bits 6 and 7 plus 4 and lies between 4
  and 7; when byte 19 is \<open>0x01\<close> the battery is not OK and the indices are 0, 3 and 4.
\<close>

theorem virtual_indices_in_range:
  assumes "well_formed s" "22 \<le> len s"
  shows "\<exists>p. fst (ExtractCombustionPacket fused s) = Inr p \<and>
          unat (VirtualCoreIndex p) \<le> 7 \<and>
          unat (VirtualSurfaceIndex p) = unat (drop_bit 4 (array s ! 19) AND 0x03) + 3 \<and>
          3 \<le> unat (VirtualSurfaceIndex p) \<and> unat (VirtualSurfaceIndex p) \<le> 6 \<and>
          unat (VirtualAmbientIndex p) = unat (drop_bit 6 (array s ! 19) AND 0x03) + 4 \<and>
          4 \<le> unat (VirtualAmbientIndex p) \<and> unat (VirtualAmbientIndex p) \<le> 7 \<and>
          (array s ! 19 = 0x01 \<longrightarrow> \<not> BatteryOK p \<and> VirtualCoreIndex p = 0 \<and>
             VirtualSurfaceIndex p = 3 \<and> VirtualAmbientIndex p = 4)"
proof -
  let ?b = "array s ! 19"
  have "unat (drop_bit 1 ?b AND 0x07) \<le> 7" by (rule and7_le)
  moreover have "unat (drop_bit 4 ?b AND 0x03) \<le> 3" "unat (drop_bit 6 ?b AND 0x03) \<le> 3"
    by (rule and3_le)+
  ultimately show ?thesis
    using assms by (auto simp: Extract_returns returned_packet_def plus3 plus4)
qed

theorem virtual_indices_in_range_witness:
  "well_formed normal_packet \<and> 22 \<le> len normal_packet \<and> array normal_packet ! 19 = 0x01 \<and>
   (\<exists>p. fst (ExtractCombustionPacket False normal_packet) = Inr p \<and> \<not> BatteryOK p \<and>
      VirtualCoreIndex p = 0 \<and> VirtualSurfaceIndex p = 3 \<and> VirtualAmbientIndex p = 4)"
proof -
  have h: "well_formed normal_packet" "22 \<le> len normal_packet"
    and b: "array normal_packet ! 19 = 0x01"
    by (simp_all add: example_simps)
  show ?thesis using h b virtual_indices_in_range [OF h, of False] by blast
qed

section \<open>Overheating sensors\<close>

text \<open>
  C8. For every input of at least 22 bytes, in every mode, the packet has 8 overheating
  flags and flag \<open>i\<close> is true exactly when bit \<open>1 << i\<close> of byte 21 is set:
  flag 7 is the bit \<open>0x80\<close>, flag 0 the bit \<open>0x01\<close>.
\<close>

theorem overheating_flags_are_bits_of_byte_21:
  assumes "well_formed s" "22 \<le> len s"
  shows "\<exists>p. fst (ExtractCombustionPacket fused s) = Inr p \<and> length (Overheating p) = 8 \<and>
          (\<forall>i<8. Overheating p ! i = (array s ! 21 AND push_bit i 1 \<noteq> 0)) \<and>
          Overheating p ! 7 = (array s ! 21 AND 0x80 \<noteq> 0) \<and>
          Overheating p ! 0 = (array s ! 21 AND 0x01 \<noteq> 0)"
proof -
  let ?p = "returned_packet fused (array s)"
  have len: "length (Overheating ?p) = 8"
    by (simp add: returned_packet_def)
  have nth: "Overheating ?p ! i = (array s ! 21 AND push_bit i 1 \<noteq> 0)" if "i < 8" for i
    using that by (simp add: returned_packet_def mask_test_pow)
  have "Overheating ?p ! 7 = (array s ! 21 AND 0x80 \<noteq> 0)"
    "Overheating ?p ! 0 = (array s ! 21 AND 0x01 \<noteq> 0)"
    using nth [of 7] nth [of 0] by simp_all
  with len nth show ?thesis
    using assms by (simp add: Extract_returns)
qed

theorem overheating_flags_are_bits_of_byte_21_witness:
  "well_formed normal_packet \<and> 22 \<le> len normal_packet \<and> array normal_packet ! 21 = 0x81 \<and>
   (\<exists>p. fst (ExtractCombustionPacket False normal_packet) = Inr p \<and> length (Overheating p) = 8 \<and>
      Overheating p ! 0 \<and> \<not> Overheating p ! 1 \<and> \<not> Overheating p ! 2 \<and>
      \<not> Overheating p ! 3 \<and> \<not> Overheating p ! 4 \<and> \<not> Overheating p ! 5 \<and>
      \<not> Overheating p ! 6 \<and> Overheating p ! 7)"
proof -
  have h: "well_formed normal_packet" "22 \<le> len normal_packet"
    and b: "array normal_packet ! 21 = 0x81"
    by (simp_all add: example_simps)
  from overheating_flags_are_bits_of_byte_21 [OF h, of False] obtain p
    where p: "fst (ExtractCombustionPacket False normal_packet) = Inr p" "length (Overheating p) = 8"
      and flag: "\<And>i. i < 8 \<Longrightarrow> Overheating p ! i = (0x81 AND push_bit i (1 :: byte) \<noteq> 0)"
    unfolding b by blast
  have "Overheating p ! 0" "\<not> Overheating p ! 1" "\<not> Overheating p ! 2"
    "\<not> Overheating p ! 3" "\<not> Overheating p ! 4" "\<not> Overheating p ! 5"
    "\<not> Overheating p ! 6" "Overheating p ! 7"
    by (simp_all add: flag)
  with p h b show ?thesis by blast
qed

section \<open>The temperature conversion\<close>

text \<open>
  C9. For every input of at least 22 bytes every temperature of the packet is
  \<open>fromRawTemp\<close> of a raw reading below \<open>2 ^ 13\<close>, that is
  \<open>raw * 0.05 - 20.0\<close> in single precision with the constant 0.05 converted to the
  nearest \<open>float32\<close>, whether the implementation rounds the product or fuses it with
  the subtraction; the raw reading 0 gives exactly -20 and the raw reading 800 exactly 20.
\<close>

theorem temperature_conversion:
  assumes "well_formed s" "22 \<le> len s"
  shows "\<exists>p raws. fst (ExtractCombustionPacket fused s) = Inr p \<and>
          Temps p = map (fromRawTemp fused) raws \<and>
          (\<forall>r \<in> set raws. unat r < 2 ^ 13 \<and>
             fromRawTemp fused r =
               (if fused then f32_round (of_nat (unat r) * (13421773 / 2 ^ 28) - 20)
                else f32_round (f32_round (of_nat (unat r) * (13421773 / 2 ^ 28)) - 20))) \<and>
          f32_round 0.05 = 13421773 / 2 ^ 28 \<and>
          fromRawTemp fused 0 = - 20 \<and> fromRawTemp fused 800 = 20"
proof -
  obtain raws
    where raws: "Temps (returned_packet fused (array s)) = map (fromRawTemp fused) raws"
      "set raws \<subseteq> set (wire_raw (array s))"
    by (rule Temps_returned)
  show ?thesis
  proof (intro exI conjI ballI)
    show "fst (ExtractCombustionPacket fused s) = Inr (returned_packet fused (array s))"
      using assms by (simp add: Extract_returns)
    show "Temps (returned_packet fused (array s)) = map (fromRawTemp fused) raws"
      by (rule raws(1))
    show "unat r < 2 ^ 13" if "r \<in> set raws" for r
      using that raws(2) by (intro wire_raw_less [of r "array s"]) blast
    show "fromRawTemp fused r =
        (if fused then f32_round (of_nat (unat r) * (13421773 / 2 ^ 28) - 20)
         else f32_round (f32_round (of_nat (unat r) * (13421773 / 2 ^ 28)) - 20))" for r
      by (rule fromRawTemp_unfold)
    show "f32_round 0.05 = 13421773 / 2 ^ 28" by (rule f32_round_one_twentieth)
    show "fromRawTemp fused 0 = - 20" by (rule fromRawTemp_0)
    show "fromRawTemp fused 800 = 20" by (rule fromRawTemp_800)
  qed
qed

theorem temperature_conversion_witness:
  "well_formed instant_read_packet \<and> 22 \<le> len instant_read_packet \<and>
   (\<exists>p. fst (ExtractCombustionPacket False instant_read_packet) = Inr p \<and> Temps p = [20]) \<and>
   (\<exists>p. fst (ExtractCombustionPacket True instant_read_packet) = Inr p \<and> Temps p = [20])"
proof -
  have h: "well_formed instant_read_packet" "22 \<le> len instant_read_packet"
    by (simp_all add: example_simps)
  have raw: "wire_raw (array instant_read_packet) ! 0 = 800"
    by (simp add: example_simps wire_raw_def)
  have t: "Temps (returned_packet fused (array instant_read_packet)) = [fromRawTemp fused 800]"
    for fused
    unfolding raw [symmetric]
    by (simp add: returned_packet_def example_simps CombustionModeInstantRead_def)
  from temperature_conversion [OF h, of False] have "fromRawTemp False 800 = 20" by blast
  moreover from temperature_conversion [OF h, of True] have "fromRawTemp True 800 = 20" by blast
  ultimately show ?thesis
    using h t by (simp add: Extract_returns)
qed

section \<open>Probe and colour identifiers\<close>

text \<open>
  C10. For every input of at least 22 bytes the probe identifier is 0 (byte 18 shifted right
  by 5 is at most 7 and has no bit of the mask \<open>0x70\<close>), the colour identifier is
  one of \<open>0x00\<close>, \<open>0x10\<close>, \<open>0x20\<close>, \<open>0x30\<close>, and it is
  never \<open>CombustionColorGrey\<close>, which is 1.
\<close>

theorem probe_id_is_zero_and_color_id_values:
  assumes "well_formed s" "22 \<le> len s"
  shows "\<exists>p. fst (ExtractCombustionPacket fused s) = Inr p \<and> ProbeID p = 0 \<and>
          ColorID p \<in> {0x00, 0x10, 0x20, 0x30} \<and> ColorID p \<noteq> CombustionColorGrey"
proof -
  let ?p = "returned_packet fused (array s)"
  have "ProbeID ?p = 0" by (simp add: returned_packet_def probe_zero)
  moreover have c: "ColorID ?p \<in> {0x00, 0x10, 0x20, 0x30}"
    using color_values [of "array s ! 18"] by (simp add: returned_packet_def)
  moreover from c have "ColorID ?p \<noteq> CombustionColorGrey"
    by (auto simp: CombustionColorGrey_def)
  ultimately show ?thesis
    using assms by (simp add: Extract_returns)
qed

theorem probe_id_is_zero_and_color_id_values_witness:
  "well_formed normal_packet \<and> 22 \<le> len normal_packet \<and>
   (\<exists>p. fst (ExtractCombustionPacket False normal_packet) = Inr p \<and> ProbeID p = 0 \<and>
      ColorID p \<noteq> CombustionColorGrey)"
proof -
  have h: "well_formed normal_packet" "22 \<le> len normal_packet"
    by (simp_all add: example_simps)
  show ?thesis using h probe_id_is_zero_and_color_id_values [OF h, of False] by blast
qed

end
